theory Spec2Isabelle
  imports Main "HOL-Library.Stream"
begin

section \<open>Data model of \<^verbatim>\<open>model/password.go\<close>\<close>

text \<open>
  A Go \<^verbatim>\<open>rune\<close> is an \<^verbatim>\<open>int32\<close> code point. The runes of a string lie in
  \<open>0 .. 0x10FFFF\<close>, so the \<open>a + 1\<close> and \<open>a - 1\<close> of \<^verbatim>\<open>isSequential\<close> never wrap and
  unbounded integers carry the same arithmetic. A Go string is modelled by the list of
  its runes (what \<^verbatim>\<open>[]rune(s)\<close> and \<^verbatim>\<open>range s\<close> read). Every string literal of the
  program is ASCII, so a byte index into a character set and a rune index coincide, and
  the length of a generated password in bytes is its length in runes.
\<close>

type_synonym rune = int
type_synonym gostring = "rune list"

record PasswordOptions =
  MinLength :: int
  MaxLength :: int
  DefaultLength :: int
  Quantity :: int
  IncludeSymbols :: bool
  IncludeNumbers :: bool
  IncludeUpper :: bool
  IncludeLower :: bool
  BeginWithLetter :: bool
  NoSimilar :: bool
  NoDuplicates :: bool
  NoSequential :: bool
  Length :: int

text \<open>
  The two \<^verbatim>\<open>error\<close> values the package creates with \<^verbatim>\<open>errors.New\<close>, and the run-time
  panics its statements can raise. A panic is not an \<^verbatim>\<open>error\<close> return: it unwinds the
  callers, none of which recovers.
\<close>

datatype error =
    ErrNoCharacterType      \<comment> \<open>"at least one character type must be selected"\<close>
  | ErrSecureRandom         \<comment> \<open>"failed to generate secure random character"\<close>

datatype panic =
    RandIntArgNotPositive   \<comment> \<open>\<^verbatim>\<open>rand.Int\<close>: "crypto/rand: argument to Int is <= 0"\<close>
  | NilPointerDereference   \<comment> \<open>\<^verbatim>\<open>index.Int64()\<close> on the nil \<^verbatim>\<open>*big.Int\<close> of a failed \<^verbatim>\<open>rand.Int\<close>\<close>
  | MakeSliceLenOutOfRange  \<comment> \<open>\<^verbatim>\<open>make([]byte, n)\<close> with \<open>n < 0\<close> or \<open>n\<close> above the allocation limit\<close>
  | IndexOutOfRange         \<comment> \<open>a slice index outside \<open>0 ..< len\<close>\<close>

datatype fault = Error error | Panic panic

text \<open>The kinds of section 7 of the specification, and the kind of each error value.\<close>

datatype error_kind = InvalidConfiguration | EntropySourceFailure

fun kind_of :: "error \<Rightarrow> error_kind" where
  "kind_of ErrNoCharacterType = InvalidConfiguration"
| "kind_of ErrSecureRandom = EntropySourceFailure"

section \<open>The entropy source\<close>

text \<open>
  \<^verbatim>\<open>crypto/rand\<close> is the environment. Each call \<^verbatim>\<open>rand.Int(rand.Reader, max)\<close> with
  \<open>max > 0\<close> takes the next element of an infinite stream of draws: \<open>Fail\<close> when the
  reader returns an error (the call returns \<^verbatim>\<open>nil, err\<close>), \<open>Val v\<close> when it succeeds,
  with result \<open>v mod max\<close>, so that every value of \<open>0 ..< max\<close> and no other can come
  out. With \<open>max \<le> 0\<close> the call panics before it reads anything. The state threaded
  through the program is the rest of the stream.
\<close>

datatype draw = Val nat | Fail

type_synonym entropy = "draw stream"

datatype rand_result = RandPanic | RandErr | RandOk nat

definition rand_Int :: "int \<Rightarrow> entropy \<Rightarrow> rand_result \<times> entropy" where
  "rand_Int n s =
     (if n \<le> 0 then (RandPanic, s)
      else (case shd s of
              Fail \<Rightarrow> (RandErr, stl s)
            | Val v \<Rightarrow> (RandOk (v mod nat n), stl s)))"

section \<open>Character sets\<close>

definition similarCharacters :: gostring where
  "similarCharacters = map of_char ''iIl1Lo0O''"

definition symbolChars :: gostring where
  "symbolChars = map of_char ''!@#$%^&*()-_=+[]{}|;:,.<>/?''"

definition numberChars :: gostring where
  "numberChars = map of_char ''0123456789''"

definition upperChars :: gostring where
  "upperChars = map of_char ''ABCDEFGHIJKLMNOPQRSTUVWXYZ''"

definition lowerChars :: gostring where
  "lowerChars = map of_char ''abcdefghijklmnopqrstuvwxyz''"

definition buildCharacterSet :: "PasswordOptions \<Rightarrow> gostring" where
  "buildCharacterSet opts =
     (let chars = [];
          chars = (if IncludeSymbols opts then chars @ symbolChars else chars);
          chars = (if IncludeNumbers opts then chars @ numberChars else chars);
          chars = (if IncludeUpper opts then chars @ upperChars else chars);
          chars = (if IncludeLower opts then chars @ lowerChars else chars)
      in chars)"


section \<open>Sampling\<close>

definition secureRandomChar :: "gostring \<Rightarrow> entropy \<Rightarrow> (fault + rune) \<times> entropy" where
  "secureRandomChar chars s =
     (case rand_Int (int (length chars)) s of
        (RandPanic, s') \<Rightarrow> (Inl (Panic RandIntArgNotPositive), s')
      | (RandErr, s') \<Rightarrow> (Inl (Error ErrSecureRandom), s')
      | (RandOk index, s') \<Rightarrow> (Inr (chars ! index), s'))"

definition getRandomLetter :: "PasswordOptions \<Rightarrow> entropy \<Rightarrow> (fault + rune) \<times> entropy" where
  "getRandomLetter opts s =
     (let letters = [];
          letters = (if IncludeUpper opts then letters @ upperChars else letters);
          letters = (if IncludeLower opts then letters @ lowerChars else letters)
      in secureRandomChar letters s)"

definition charSets :: gostring where
  "charSets = map of_char
     ''ABCDEFGHIJKLMNOPQRSTUVWXYZabcdefghijklmnopqrstuvwxyz0123456789''"

text \<open>
  \<^verbatim>\<open>getRandomRune\<close> discards the error of \<^verbatim>\<open>rand.Int\<close> (\<^verbatim>\<open>index, _ := ...\<close>) and
  calls \<^verbatim>\<open>index.Int64()\<close>. After a failed draw \<^verbatim>\<open>index\<close> is nil and the call panics.
\<close>

definition getRandomRune :: "entropy \<Rightarrow> (fault + rune) \<times> entropy" where
  "getRandomRune s =
     (case rand_Int (int (length charSets)) s of
        (RandPanic, s') \<Rightarrow> (Inl (Panic RandIntArgNotPositive), s')
      | (RandErr, s') \<Rightarrow> (Inl (Panic NilPointerDereference), s')
      | (RandOk index, s') \<Rightarrow> (Inr (charSets ! index), s'))"

section \<open>Constraint enforcement\<close>

text \<open>
  \<^verbatim>\<open>strings.ReplaceAll(password, string(char), "")\<close> for a one-character \<^verbatim>\<open>old\<close>
  and an empty \<^verbatim>\<open>new\<close>: every occurrence of the character is deleted.
\<close>

definition ReplaceAll_by_empty :: "gostring \<Rightarrow> rune \<Rightarrow> gostring" where
  "ReplaceAll_by_empty password char = filter (\<lambda>c. c \<noteq> char) password"

definition removeSimilarCharacters :: "gostring \<Rightarrow> gostring" where
  "removeSimilarCharacters password = foldl ReplaceAll_by_empty password similarCharacters"

text \<open>
  The \<^verbatim>\<open>seen\<close> map of \<^verbatim>\<open>removeDuplicateCharacters\<close> reads \<^verbatim>\<open>false\<close> at a missing
  key: a function to \<open>bool\<close>, \<open>False\<close> everywhere at the start.
\<close>

fun removeDuplicateCharacters_loop ::
  "gostring \<Rightarrow> (rune \<Rightarrow> bool) \<Rightarrow> gostring \<Rightarrow> gostring" where
  "removeDuplicateCharacters_loop [] seen result = result"
| "removeDuplicateCharacters_loop (char # rest) seen result =
     (if \<not> seen char
      then removeDuplicateCharacters_loop rest (seen(char := True)) (result @ [char])
      else removeDuplicateCharacters_loop rest seen result)"

definition removeDuplicateCharacters :: "gostring \<Rightarrow> gostring" where
  "removeDuplicateCharacters password =
     removeDuplicateCharacters_loop password (\<lambda>_. False) []"

definition isSequential :: "rune \<Rightarrow> rune \<Rightarrow> rune \<Rightarrow> bool" where
  "isSequential a b c \<longleftrightarrow> (b = a + 1 \<and> c = b + 1) \<or> (b = a - 1 \<and> c = b - 1)"

definition space :: rune where
  "space = of_char (CHR '' '')"

text \<open>
  The loop of \<^verbatim>\<open>generateNonSequentialChars\<close> has no bound of its own: a rejected draw
  is thrown away and the loop goes on. Not returning is the value \<open>None\<close>. The guard
  \<^verbatim>\<open>index > 0\<close> does not keep \<^verbatim>\<open>runes[index-1]\<close> in range for an index beyond the
  slice; that read panics, after the draw.
\<close>

partial_function (option) generateNonSequentialChars_loop ::
  "rune list \<Rightarrow> nat \<Rightarrow> rune list \<Rightarrow> entropy \<Rightarrow> ((fault + rune list) \<times> entropy) option" where
  "generateNonSequentialChars_loop runes index replacementRunes s =
     (if length replacementRunes < 3 then
        (case getRandomRune s of
           (Inl f, s') \<Rightarrow> Some (Inl f, s')
         | (Inr randomChar, s') \<Rightarrow>
             if index > 0 \<and> length runes \<le> index - 1
             then Some (Inl (Panic IndexOutOfRange), s')
             else if (index > 0 \<and> isSequential (runes ! (index - 1)) randomChar space) \<or>
                     (index + 3 < length runes \<and>
                      isSequential randomChar (runes ! (index + 3)) space)
             then generateNonSequentialChars_loop runes index replacementRunes s'
             else generateNonSequentialChars_loop runes index
                    (replacementRunes @ [randomChar]) s')
      else Some (Inr replacementRunes, s))"

definition generateNonSequentialChars ::
  "rune list \<Rightarrow> nat \<Rightarrow> entropy \<Rightarrow> ((fault + gostring) \<times> entropy) option" where
  "generateNonSequentialChars runes index s =
     generateNonSequentialChars_loop runes index [] s"

function removeSequentialCharacters_loop ::
  "rune list \<Rightarrow> nat \<Rightarrow> gostring \<Rightarrow> entropy \<Rightarrow> ((fault + gostring) \<times> entropy) option" where
  "removeSequentialCharacters_loop runes i result s =
     (if i < length runes then
        (if i + 2 < length runes \<and> isSequential (runes ! i) (runes ! (i + 1)) (runes ! (i + 2))
         then (case generateNonSequentialChars runes i s of
                 None \<Rightarrow> None
               | Some (Inl f, s') \<Rightarrow> Some (Inl f, s')
               | Some (Inr replacement, s') \<Rightarrow>
                   removeSequentialCharacters_loop runes (i + 2 + 1) (result @ replacement) s')
         else removeSequentialCharacters_loop runes (i + 1) (result @ [runes ! i]) s)
      else Some (Inr result, s))"
  by pat_completeness auto
termination
  by (relation "measure (\<lambda>(runes, i, result, s). length runes - i)") auto

declare removeSequentialCharacters_loop.simps [simp del]

definition removeSequentialCharacters ::
  "gostring \<Rightarrow> entropy \<Rightarrow> ((fault + gostring) \<times> entropy) option" where
  "removeSequentialCharacters password s = removeSequentialCharacters_loop password 0 [] s"

section \<open>Generation\<close>

function generatePassword_loop ::
  "PasswordOptions \<Rightarrow> gostring \<Rightarrow> nat \<Rightarrow> rune list \<Rightarrow> entropy
     \<Rightarrow> (fault + rune list) \<times> entropy" where
  "generatePassword_loop opts chars i password s =
     (if int i < Length opts then
        (case (if i = 0 \<and> BeginWithLetter opts then getRandomLetter opts s
               else secureRandomChar chars s) of
           (Inl f, s') \<Rightarrow> (Inl f, s')
         | (Inr c, s') \<Rightarrow> generatePassword_loop opts chars (i + 1) (password[i := c]) s')
      else (Inr password, s))"
  by pat_completeness auto
termination
  by (relation "measure (\<lambda>(opts, chars, i, password, s). nat (Length opts) - i)") auto

declare generatePassword_loop.simps [simp del]

text \<open>
  \<^verbatim>\<open>make([]byte, n)\<close> panics with "makeslice: len out of range" when \<open>n\<close> is negative
  and when the \<open>n\<close> bytes exceed the run-time's allocation limit \<^verbatim>\<open>maxAlloc\<close>, which is
  \<open>2 ^ 48\<close> on the 64-bit Linux platforms the repository's Dockerfile builds for. Whether
  the machine has the memory for a length below that limit is not part of the model.
\<close>

definition maxAlloc :: int where
  "maxAlloc = 2 ^ 48"

definition make_panics :: "int \<Rightarrow> bool" where
  "make_panics n \<longleftrightarrow> n < 0 \<or> maxAlloc < n"

text \<open>
  The character-set test comes before \<^verbatim>\<open>make([]byte, opts.Length)\<close>. The slice starts
  as \<open>Length\<close> zero bytes.
\<close>

definition generatePassword ::
  "PasswordOptions \<Rightarrow> entropy \<Rightarrow> ((fault + gostring) \<times> entropy) option" where
  "generatePassword opts s =
     (let chars = buildCharacterSet opts in
      if chars = [] then Some (Inl (Error ErrNoCharacterType), s)
      else if make_panics (Length opts) then Some (Inl (Panic MakeSliceLenOutOfRange), s)
      else (case generatePassword_loop opts chars 0 (replicate (nat (Length opts)) 0) s of
              (Inl f, s') \<Rightarrow> Some (Inl f, s')
            | (Inr password, s') \<Rightarrow>
                (let passwordStr = password;
                     passwordStr = (if NoSimilar opts then removeSimilarCharacters passwordStr
                                    else passwordStr);
                     passwordStr = (if NoDuplicates opts then removeDuplicateCharacters passwordStr
                                    else passwordStr)
                 in if NoSequential opts then removeSequentialCharacters passwordStr s'
                    else Some (Inr passwordStr, s'))))"

function GeneratePasswords_loop ::
  "PasswordOptions \<Rightarrow> nat \<Rightarrow> gostring list \<Rightarrow> entropy
     \<Rightarrow> ((fault + gostring list) \<times> entropy) option" where
  "GeneratePasswords_loop opts i passwords s =
     (if int i < Quantity opts then
        (case generatePassword opts s of
           None \<Rightarrow> None
         | Some (Inl f, s') \<Rightarrow> Some (Inl f, s')
         | Some (Inr password, s') \<Rightarrow>
             GeneratePasswords_loop opts (i + 1) (passwords @ [password]) s')
      else Some (Inr passwords, s))"
  by pat_completeness auto
termination
  by (relation "measure (\<lambda>(opts, i, passwords, s). nat (Quantity opts) - i)") auto

declare GeneratePasswords_loop.simps [simp del]

definition GeneratePasswords ::
  "PasswordOptions \<Rightarrow> entropy \<Rightarrow> ((fault + gostring list) \<times> entropy) option" where
  "GeneratePasswords opts s = GeneratePasswords_loop opts 0 [] s"

section \<open>A concrete request\<close>

text \<open>
  The request the examples below start from: lowercase letters only, three characters,
  two passwords, no structural option set. The bounds are those of
  \<^verbatim>\<open>config.GetDefaultOptions\<close>.
\<close>

definition exampleOptions :: PasswordOptions where
  "exampleOptions =
     \<lparr>MinLength = 6, MaxLength = 32, DefaultLength = 12, Quantity = 2,
      IncludeSymbols = False, IncludeNumbers = False, IncludeUpper = False,
      IncludeLower = True, BeginWithLetter = False, NoSimilar = False,
      NoDuplicates = False, NoSequential = False, Length = 3\<rparr>"

section \<open>Facts about the character sets\<close>

lemma symbolChars_codes:
  "symbolChars = [33, 64, 35, 36, 37, 94, 38, 42, 40, 41, 45, 95, 61, 43, 91, 93, 123, 125,
                  124, 59, 58, 44, 46, 60, 62, 47, 63]"
  by (simp add: symbolChars_def)

lemma numberChars_codes: "numberChars = [48..57]"
  by (simp add: numberChars_def)

lemma upperChars_codes:
  "upperChars = [65..90]"
  by (simp add: upperChars_def)

lemma lowerChars_codes:
  "lowerChars = [97..122]"
  by (simp add: lowerChars_def)

lemma similarCharacters_codes: "similarCharacters = [105, 73, 108, 49, 76, 111, 48, 79]"
  by (simp add: similarCharacters_def)

lemma charSets_split: "charSets = upperChars @ lowerChars @ numberChars"
  by (simp add: charSets_def upperChars_def lowerChars_def numberChars_def)

lemma length_charSets: "length charSets = 62"
  by (simp add: charSets_split upperChars_codes lowerChars_codes numberChars_codes
        del: upto_rec_numeral upto.simps)

lemma space_code: "space = 32"
  by (simp add: space_def)

lemma charSets_range:
  assumes "c \<in> set charSets"
  shows "48 \<le> c \<and> c \<le> 122"
  using assms
  by (auto simp add: charSets_split upperChars_codes lowerChars_codes numberChars_codes
        simp del: upto_rec_numeral upto.simps)

lemma charSets_nth_range: "48 \<le> charSets ! (v mod 62) \<and> charSets ! (v mod 62) \<le> 122"
proof -
  have "v mod 62 < length charSets"
    by (simp add: length_charSets)
  then have "charSets ! (v mod 62) \<in> set charSets"
    by (rule nth_mem)
  then show ?thesis
    by (rule charSets_range)
qed

section \<open>The character-pool builder\<close>

text \<open>
  Claim C8. Given the four inclusion flags, \<^verbatim>\<open>buildCharacterSet\<close> returns the
  concatenation of the enabled class strings in the order symbols, numbers, uppercase,
  lowercase. The classes are given below by the ASCII codes of their characters:
  \<^verbatim>\<open>!@#$%^&*()-_=+[]{}|;:,.<>/?\<close>, the digits as \<open>48 .. 57\<close>, \<open>A .. Z\<close> as \<open>65 .. 90\<close>
  and \<open>a .. z\<close> as \<open>97 .. 122\<close>. The result is empty exactly when all four flags are
  false.
\<close>

theorem buildCharacterSet_is_concatenation:
  "buildCharacterSet opts =
     (if IncludeSymbols opts
      then [33, 64, 35, 36, 37, 94, 38, 42, 40, 41, 45, 95, 61, 43, 91, 93, 123, 125, 124,
            59, 58, 44, 46, 60, 62, 47, 63]
      else []) @
     (if IncludeNumbers opts then [48..57] else []) @
     (if IncludeUpper opts
      then [65..90] else []) @
     (if IncludeLower opts
      then [97..122] else [])
   \<and> (buildCharacterSet opts = [] \<longleftrightarrow>
        \<not> IncludeSymbols opts \<and> \<not> IncludeNumbers opts \<and>
        \<not> IncludeUpper opts \<and> \<not> IncludeLower opts)"
  by (simp add: buildCharacterSet_def symbolChars_codes numberChars_codes upperChars_codes
        lowerChars_codes)

section \<open>The replacement loop of the sequential repair\<close>

lemma getRandomRune_Val: "getRandomRune (Val v ## s) = (Inr (charSets ! (v mod 62)), s)"
  by (simp add: getRandomRune_def rand_Int_def length_charSets)

lemma getRandomRune_Fail: "getRandomRune (Fail ## s) = (Inl (Panic NilPointerDereference), s)"
  by (simp add: getRandomRune_def rand_Int_def length_charSets)

text \<open>
  With the blank as third argument, \<^verbatim>\<open>isSequential\<close> holds for two pairs only, and
  neither has a letter or a digit in it.
\<close>

lemma isSequential_space:
  "isSequential a b space \<longleftrightarrow> (a = 30 \<and> b = 31) \<or> (a = 34 \<and> b = 33)"
  by (auto simp add: isSequential_def space_code)

lemma never_rejected:
  "\<not> isSequential a (charSets ! (v mod 62)) space \<and>
   \<not> isSequential (charSets ! (v mod 62)) b space"
  using charSets_nth_range [of v] by (simp add: isSequential_space)

lemma loop_done:
  "\<not> length rep < 3 \<Longrightarrow>
   generateNonSequentialChars_loop runes index rep s = Some (Inr rep, s)"
  by (simp add: generateNonSequentialChars_loop.simps)

lemma loop_Fail:
  "length rep < 3 \<Longrightarrow>
   generateNonSequentialChars_loop runes index rep (Fail ## s) =
     Some (Inl (Panic NilPointerDereference), s)"
  by (subst generateNonSequentialChars_loop.simps) (simp add: getRandomRune_Fail)

lemma loop_Val:
  "length rep < 3 \<Longrightarrow> index \<le> length runes \<Longrightarrow>
   generateNonSequentialChars_loop runes index rep (Val v ## s) =
     generateNonSequentialChars_loop runes index (rep @ [charSets ! (v mod 62)]) s"
  by (subst generateNonSequentialChars_loop.simps)
     (auto simp add: getRandomRune_Val never_rejected)

lemma loop_Val_beyond:
  "length rep < 3 \<Longrightarrow> length runes < index \<Longrightarrow>
   generateNonSequentialChars_loop runes index rep (Val v ## s) =
     Some (Inl (Panic IndexOutOfRange), s)"
  by (subst generateNonSequentialChars_loop.simps)
     (auto simp add: getRandomRune_Val never_rejected)

lemma loop_returns:
  "length rep + n = 3 \<Longrightarrow>
   \<exists>r s'. generateNonSequentialChars_loop runes index rep s = Some (r, s') \<and>
          (\<forall>out. r = Inr out \<longrightarrow> length out = 3)"
proof (induction n arbitrary: rep s)
  case 0
  then show ?case by (simp add: loop_done)
next
  case (Suc n)
  then have short: "length rep < 3" by simp
  obtain d s1 where s: "s = d ## s1" by (cases s)
  show ?case
  proof (cases d)
    case Fail
    with short s show ?thesis by (simp add: loop_Fail)
  next
    case (Val v)
    show ?thesis
    proof (cases "index \<le> length runes")
      case True
      have "length (rep @ [charSets ! (v mod 62)]) + n = 3" using Suc.prems by simp
      from Suc.IH [OF this] show ?thesis
        using short s Val True by (simp add: loop_Val)
    next
      case False
      with short s Val show ?thesis by (simp add: loop_Val_beyond)
    qed
  qed
qed

lemma loop_outcome:
  "length rep + n = 3 \<Longrightarrow> index \<le> length runes \<Longrightarrow>
   \<exists>r s'. generateNonSequentialChars_loop runes index rep s = Some (r, s') \<and>
          (\<forall>out. r = Inr out \<longrightarrow> length out = 3) \<and>
          (\<forall>f. r = Inl f \<longrightarrow> f = Panic NilPointerDereference \<and> Fail \<in> sset s) \<and>
          sset s' \<subseteq> sset s"
proof (induction n arbitrary: rep s)
  case 0
  then show ?case by (simp add: loop_done)
next
  case (Suc n)
  then have short: "length rep < 3" by simp
  obtain d s1 where s: "s = d ## s1" by (cases s)
  show ?case
  proof (cases d)
    case Fail
    with short s show ?thesis by (auto simp add: loop_Fail)
  next
    case (Val v)
    have "length (rep @ [charSets ! (v mod 62)]) + n = 3" using Suc.prems by simp
    from Suc.IH [OF this Suc.prems(2), of s1]
    obtain r s' where
      "generateNonSequentialChars_loop runes index (rep @ [charSets ! (v mod 62)]) s1 =
         Some (r, s')"
      "\<forall>out. r = Inr out \<longrightarrow> length out = 3"
      "\<forall>f. r = Inl f \<longrightarrow> f = Panic NilPointerDereference \<and> Fail \<in> sset s1"
      "sset s' \<subseteq> sset s1"
      by blast
    then show ?thesis
      using short s Val Suc.prems(2) by (auto simp add: loop_Val)
  qed
qed

text \<open>
  Claim C10. The replacement loop of \<^verbatim>\<open>generateNonSequentialChars\<close> returns for
  every password, every index and every entropy stream: the result is never \<open>None\<close>,
  and a returned replacement has exactly three characters. For an index within the
  password (every index of a run is) and three successful draws, the loop takes exactly
  these three draws, rejects none of them, and returns the three characters they
  select; the neighbours in \<open>runes\<close> play no part.
\<close>

theorem generateNonSequentialChars_terminates:
  "(\<exists>r s'. generateNonSequentialChars runes index s = Some (r, s') \<and>
       (\<forall>out. r = Inr out \<longrightarrow> length out = 3)) \<and>
   (index \<le> length runes \<longrightarrow>
      generateNonSequentialChars runes index (Val a ## Val b ## Val c ## s) =
        Some (Inr [charSets ! (a mod 62), charSets ! (b mod 62), charSets ! (c mod 62)], s))"
proof
  show "\<exists>r s'. generateNonSequentialChars runes index s = Some (r, s') \<and>
       (\<forall>out. r = Inr out \<longrightarrow> length out = 3)"
    unfolding generateNonSequentialChars_def by (rule loop_returns) simp
  show "index \<le> length runes \<longrightarrow>
      generateNonSequentialChars runes index (Val a ## Val b ## Val c ## s) =
        Some (Inr [charSets ! (a mod 62), charSets ! (b mod 62), charSets ! (c mod 62)], s)"
    by (simp add: generateNonSequentialChars_def loop_Val loop_done)
qed

theorem generateNonSequentialChars_terminates_witness:
  "generateNonSequentialChars [120, 97, 98, 99, 100] 1
     (Val 27 ## Val 88 ## Val 61 ## sconst Fail) = Some (Inr [98, 97, 57], sconst Fail)"
  using generateNonSequentialChars_terminates
          [of "[120, 97, 98, 99, 100]" 1 "sconst Fail" 27 88 61]
  by (simp add: charSets_split upperChars_codes lowerChars_codes numberChars_codes)

section \<open>The sequential-removal stage\<close>

lemma removeSequentialCharacters_loop_outcome:
  "i \<le> length runes \<Longrightarrow>
   \<exists>r s'. removeSequentialCharacters_loop runes i result s = Some (r, s') \<and>
     (\<forall>out. r = Inr out \<longrightarrow> length out = length result + (length runes - i)) \<and>
     (\<forall>f. r = Inl f \<longrightarrow> f = Panic NilPointerDereference \<and> Fail \<in> sset s) \<and>
     sset s' \<subseteq> sset s"
proof (induction runes i result s rule: removeSequentialCharacters_loop.induct)
  case (1 runes i result s)
  show ?case
  proof (cases "i < length runes")
    case False
    then show ?thesis
      using "1.prems" by (subst removeSequentialCharacters_loop.simps) simp
  next
    case inside: True
    show ?thesis
    proof (cases "i + 2 < length runes \<and>
                  isSequential (runes ! i) (runes ! (i + 1)) (runes ! (i + 2))")
      case False
      have "Suc i \<le> length runes" using inside by simp
      with "1.IH"(2) [OF inside False] inside False show ?thesis
        by (subst removeSequentialCharacters_loop.simps) auto
    next
      case run: True
      obtain r s1 where g: "generateNonSequentialChars runes i s = Some (r, s1)"
        and len: "\<forall>out. r = Inr out \<longrightarrow> length out = 3"
        and flt: "\<forall>f. r = Inl f \<longrightarrow> f = Panic NilPointerDereference \<and> Fail \<in> sset s"
        and sub: "sset s1 \<subseteq> sset s"
        using loop_outcome [of "[]" 3 i runes s] "1.prems"
        unfolding generateNonSequentialChars_def by auto
      show ?thesis
      proof (cases r)
        case (Inl f)
        with g flt sub inside run show ?thesis
          by (subst removeSequentialCharacters_loop.simps) simp
      next
        case (Inr replacement)
        have next_ok: "i + 2 + 1 \<le> length runes" using run by simp
        have fail_mono: "Fail \<in> sset s1 \<Longrightarrow> Fail \<in> sset s" using sub by blast
        from "1.IH"(1) [OF inside run g refl Inr next_ok]
        obtain r2 s2 where
          "removeSequentialCharacters_loop runes (i + 2 + 1) (result @ replacement) s1 =
             Some (r2, s2)"
          "\<forall>out. r2 = Inr out \<longrightarrow>
             length out = length (result @ replacement) + (length runes - (i + 2 + 1))"
          "\<forall>f. r2 = Inl f \<longrightarrow> f = Panic NilPointerDereference \<and> Fail \<in> sset s1"
          "sset s2 \<subseteq> sset s1"
          by blast
        with Inr g len inside run sub fail_mono show ?thesis
          by (subst removeSequentialCharacters_loop.simps) auto
      qed
    qed
  qed
qed

text \<open>
  Claim C9. For every input string and every entropy stream, the sequential-removal
  stage comes to an end, and the string it returns has as many characters as its
  input. The one way it returns no string is the panic of \<^verbatim>\<open>getRandomRune\<close> on a
  failed draw; on a stream of values it returns.
\<close>

theorem removeSequentialCharacters_preserves_length:
  "\<exists>r s'. removeSequentialCharacters password s = Some (r, s') \<and>
     (\<forall>out. r = Inr out \<longrightarrow> length out = length password) \<and>
     (\<forall>f. r = Inl f \<longrightarrow> f = Panic NilPointerDereference \<and> Fail \<in> sset s)"
  using removeSequentialCharacters_loop_outcome [of 0 password "[]" s]
  unfolding removeSequentialCharacters_def by auto

theorem removeSequentialCharacters_preserves_length_witness:
  "\<exists>out s'. removeSequentialCharacters [120, 97, 98, 99, 100] (sconst (Val 27)) =
     Some (Inr out, s') \<and> length out = 5"
proof -
  from removeSequentialCharacters_preserves_length [of "[120, 97, 98, 99, 100]" "sconst (Val 27)"]
  obtain r s' where
    ret: "removeSequentialCharacters [120, 97, 98, 99, 100] (sconst (Val 27)) = Some (r, s')"
    and len: "\<forall>out. r = Inr out \<longrightarrow> length out = length [120, 97, 98, 99, 100 :: rune]"
    and flt: "\<forall>f. r = Inl f \<longrightarrow> f = Panic NilPointerDereference \<and> Fail \<in> sset (sconst (Val 27))"
    by blast
  show ?thesis
  proof (cases r)
    case (Inl f)
    with flt show ?thesis by simp
  next
    case (Inr out)
    with ret len show ?thesis by simp
  qed
qed

section \<open>Outcomes of sampling and generation\<close>

lemma secureRandomChar_outcome:
  assumes "chars \<noteq> []"
  shows "secureRandomChar chars s =
     (case shd s of Fail \<Rightarrow> (Inl (Error ErrSecureRandom), stl s)
                  | Val v \<Rightarrow> (Inr (chars ! (v mod length chars)), stl s))"
  using assms by (simp add: secureRandomChar_def rand_Int_def split: draw.split)

lemma secureRandomChar_empty:
  "secureRandomChar [] s = (Inl (Panic RandIntArgNotPositive), s)"
  by (simp add: secureRandomChar_def rand_Int_def)


lemma getRandomLetter_eq:
  "getRandomLetter opts s =
     secureRandomChar ((if IncludeUpper opts then upperChars else []) @
                       (if IncludeLower opts then lowerChars else [])) s"
  by (simp add: getRandomLetter_def)

lemma upperChars_nonempty: "upperChars \<noteq> []"
  by (simp add: upperChars_def)

lemma lowerChars_nonempty: "lowerChars \<noteq> []"
  by (simp add: lowerChars_def)



lemma secureRandomChar_sset:
  assumes "secureRandomChar chars s = (r, s')"
  shows "sset s' \<subseteq> sset s"
proof (cases "chars = []")
  case True
  with assms show ?thesis by (simp add: secureRandomChar_empty)
next
  case False
  with assms have "s' = stl s"
    by (auto simp add: secureRandomChar_outcome split: draw.splits)
  then show ?thesis by (auto dest: stl_sset)
qed


lemma getRandomLetter_sset:
  assumes "getRandomLetter opts s = (r, s')"
  shows "sset s' \<subseteq> sset s"
  using assms unfolding getRandomLetter_eq by (rule secureRandomChar_sset)

lemma secureRandomChar_fault:
  assumes "chars \<noteq> []" and "secureRandomChar chars s = (Inl f, s')"
  shows "f = Error ErrSecureRandom \<and> shd s = Fail \<and> s' = stl s"
  using assms by (auto simp add: secureRandomChar_outcome split: draw.splits)

lemma secureRandomChar_stl:
  assumes "chars \<noteq> []" and "secureRandomChar chars s = (r, s')"
  shows "s' = stl s"
  using assms by (auto simp add: secureRandomChar_outcome split: draw.splits)

lemma getRandomLetter_fault:
  assumes "getRandomLetter opts s = (Inl f, s')"
  shows "(f = Error ErrSecureRandom \<and> shd s = Fail \<and> s' = stl s) \<or>
         (f = Panic RandIntArgNotPositive \<and> \<not> IncludeUpper opts \<and> \<not> IncludeLower opts \<and> s' = s)"
proof -
  let ?letters = "(if IncludeUpper opts then upperChars else []) @
                  (if IncludeLower opts then lowerChars else [])"
  show ?thesis
  proof (cases "?letters = []")
    case True
    with assms show ?thesis
      by (auto simp add: getRandomLetter_eq secureRandomChar_empty upperChars_nonempty
            lowerChars_nonempty split: if_splits)
  next
    case False
    with assms secureRandomChar_fault [of ?letters s f s'] show ?thesis
      by (simp add: getRandomLetter_eq)
  qed
qed

lemma shd_in_sset_Fail: "shd s = Fail \<Longrightarrow> Fail \<in> sset s"
  by (metis shd_sset)

lemma generatePassword_loop_fault:
  assumes "generatePassword_loop opts chars i password s = (Inl f, s')" and "chars \<noteq> []"
  shows "(f = Error ErrSecureRandom \<and> Fail \<in> sset s) \<or>
         (f = Panic RandIntArgNotPositive \<and> BeginWithLetter opts \<and>
          \<not> IncludeUpper opts \<and> \<not> IncludeLower opts)"
  using assms
proof (induction opts chars i password s rule: generatePassword_loop.induct)
  case (1 opts chars i password s)
  show ?case
  proof (cases "int i < Length opts")
    case False
    with "1.prems"(1) show ?thesis
      by (subst (asm) generatePassword_loop.simps) auto
  next
    case True
    let ?draw = "if i = 0 \<and> BeginWithLetter opts then getRandomLetter opts s
               else secureRandomChar chars s"
    obtain r s1 where d: "?draw = (r, s1)" by (cases ?draw)
    show ?thesis
    proof (cases r)
      case (Inl g)
      with d True "1.prems"(1) have fg: "f = g"
        by (subst (asm) generatePassword_loop.simps) auto
      show ?thesis
      proof (cases "i = 0 \<and> BeginWithLetter opts")
        case True
        with d Inl fg getRandomLetter_fault [of opts s f s1] show ?thesis
          by (auto simp add: shd_in_sset_Fail)
      next
        case False
        with d Inl fg "1.prems"(2) secureRandomChar_fault [of chars s f s1] show ?thesis
          by (auto simp add: shd_in_sset_Fail)
      qed
    next
      case (Inr c)
      with d True "1.prems"(1)
      have rest: "generatePassword_loop opts chars (i + 1) (password[i := c]) s1 = (Inl f, s')"
        by (subst (asm) generatePassword_loop.simps) auto
      have "sset s1 \<subseteq> sset s"
        using d getRandomLetter_sset [of opts s r s1] secureRandomChar_sset [of chars s r s1]
        by (auto split: if_splits)
      then have mono: "Fail \<in> sset s1 \<Longrightarrow> Fail \<in> sset s"
        by blast
      from "1.IH" [OF True d [symmetric] Inr rest "1.prems"(2)] mono show ?thesis
        by blast
    qed
  qed
qed




lemma generatePassword_loop_sset:
  assumes "generatePassword_loop opts chars i password s = (r, s')"
  shows "sset s' \<subseteq> sset s"
  using assms
proof (induction opts chars i password s rule: generatePassword_loop.induct)
  case (1 opts chars i password s)
  show ?case
  proof (cases "int i < Length opts")
    case False
    with "1.prems" show ?thesis
      by (subst (asm) generatePassword_loop.simps) auto
  next
    case True
    let ?draw = "if i = 0 \<and> BeginWithLetter opts then getRandomLetter opts s
               else secureRandomChar chars s"
    obtain r1 s1 where d: "?draw = (r1, s1)" by (cases ?draw)
    have sub: "sset s1 \<subseteq> sset s"
      using d getRandomLetter_sset [of opts s r1 s1] secureRandomChar_sset [of chars s r1 s1]
      by (auto split: if_splits)
    show ?thesis
    proof (cases r1)
      case (Inl g)
      with d True "1.prems" have "s' = s1"
        by (subst (asm) generatePassword_loop.simps) auto
      with sub show ?thesis by simp
    next
      case (Inr c)
      with d True "1.prems"
      have rest: "generatePassword_loop opts chars (i + 1) (password[i := c]) s1 = (r, s')"
        by (subst (asm) generatePassword_loop.simps) auto
      from "1.IH" [OF True d [symmetric] Inr rest] sub show ?thesis
        by blast
    qed
  qed
qed

lemma generatePassword_outcome:
  "\<exists>r s'. generatePassword opts s = Some (r, s') \<and> sset s' \<subseteq> sset s \<and>
     (\<forall>f. r = Inl f \<longrightarrow>
        (f = Error ErrNoCharacterType \<and> buildCharacterSet opts = [] \<and> s' = s) \<or>
        (f = Panic MakeSliceLenOutOfRange \<and> buildCharacterSet opts \<noteq> [] \<and>
         make_panics (Length opts)) \<or>
        (f = Error ErrSecureRandom \<and> buildCharacterSet opts \<noteq> [] \<and> Fail \<in> sset s) \<or>
        (f = Panic RandIntArgNotPositive \<and> buildCharacterSet opts \<noteq> [] \<and>
         BeginWithLetter opts \<and> \<not> IncludeUpper opts \<and> \<not> IncludeLower opts) \<or>
        (f = Panic NilPointerDereference \<and> buildCharacterSet opts \<noteq> [] \<and>
         NoSequential opts \<and> Fail \<in> sset s))"
proof (cases "buildCharacterSet opts = []")
  case True
  then show ?thesis by (simp add: generatePassword_def)
next
  case pool: False
  show ?thesis
  proof (cases "make_panics (Length opts)")
    case True
    with pool show ?thesis by (simp add: generatePassword_def)
  next
    case len: False
    let ?loop = "generatePassword_loop opts (buildCharacterSet opts) 0
                   (replicate (nat (Length opts)) 0) s"
    obtain r1 s1 where l: "?loop = (r1, s1)" by (cases ?loop)
    have sub1: "sset s1 \<subseteq> sset s" using l by (rule generatePassword_loop_sset)
    show ?thesis
    proof (cases r1)
      case (Inl f)
      with l pool generatePassword_loop_fault [of opts "buildCharacterSet opts" 0 _ s f s1]
      have "(f = Error ErrSecureRandom \<and> Fail \<in> sset s) \<or>
            (f = Panic RandIntArgNotPositive \<and> BeginWithLetter opts \<and>
             \<not> IncludeUpper opts \<and> \<not> IncludeLower opts)"
        by simp
      with Inl l pool len sub1 show ?thesis
        by (auto simp add: generatePassword_def)
    next
      case (Inr password)
      show ?thesis
      proof (cases "NoSequential opts")
        case False
        with Inr l pool len sub1 show ?thesis
          by (simp add: generatePassword_def Let_def)
      next
        case True
        let ?str = "if NoDuplicates opts
                    then removeDuplicateCharacters
                           (if NoSimilar opts then removeSimilarCharacters password else password)
                    else (if NoSimilar opts then removeSimilarCharacters password else password)"
        from removeSequentialCharacters_loop_outcome [of 0 ?str "[]" s1]
        obtain r2 s2 where
          "removeSequentialCharacters ?str s1 = Some (r2, s2)"
          "\<forall>f. r2 = Inl f \<longrightarrow> f = Panic NilPointerDereference \<and> Fail \<in> sset s1"
          "sset s2 \<subseteq> sset s1"
          unfolding removeSequentialCharacters_def by auto
        with True Inr l pool len sub1 show ?thesis
          by (auto simp add: generatePassword_def Let_def)
      qed
    qed
  qed
qed


lemma GeneratePasswords_loop_step_fault:
  assumes "int i < Quantity opts" and "generatePassword opts s = Some (Inl f, s')"
  shows "GeneratePasswords_loop opts i passwords s = Some (Inl f, s')"
  using assms by (subst GeneratePasswords_loop.simps) simp

lemma GeneratePasswords_loop_step_ok:
  assumes "int i < Quantity opts" and "generatePassword opts s = Some (Inr password, s')"
  shows "GeneratePasswords_loop opts i passwords s =
         GeneratePasswords_loop opts (i + 1) (passwords @ [password]) s'"
  using assms by (subst GeneratePasswords_loop.simps) simp

lemma GeneratePasswords_loop_exit:
  assumes "\<not> int i < Quantity opts"
  shows "GeneratePasswords_loop opts i passwords s = Some (Inr passwords, s)"
  using assms by (subst GeneratePasswords_loop.simps) simp

lemma GeneratePasswords_loop_outcome:
  "\<exists>r s'. GeneratePasswords_loop opts i passwords s = Some (r, s') \<and> sset s' \<subseteq> sset s \<and>
     (\<forall>f. r = Inl f \<longrightarrow>
        int i < Quantity opts \<and>
        (\<exists>s0. sset s0 \<subseteq> sset s \<and> generatePassword opts s0 = Some (Inl f, s'))) \<and>
     (\<forall>pws. r = Inr pws \<longrightarrow>
        length pws = length passwords + (nat (Quantity opts) - i) \<and>
        take (length passwords) pws = passwords \<and>
        (\<forall>pw \<in> set (drop (length passwords) pws).
           \<exists>s0 s1. generatePassword opts s0 = Some (Inr pw, s1)))"
proof (induction opts i passwords s rule: GeneratePasswords_loop.induct)
  case (1 opts i passwords s)
  show ?case
  proof (cases "int i < Quantity opts")
    case False
    then show ?thesis by (simp add: GeneratePasswords_loop_exit)
  next
    case True
    from generatePassword_outcome [of opts s]
    obtain r1 s1 where g: "generatePassword opts s = Some (r1, s1)"
      and sub1: "sset s1 \<subseteq> sset s" by blast
    show ?thesis
    proof (cases r1)
      case (Inl f)
      with True g sub1 show ?thesis
        by (auto simp add: GeneratePasswords_loop_step_fault)
    next
      case (Inr password)
      from "1.IH" [OF True g refl Inr]
      obtain r2 s2 where
        l: "GeneratePasswords_loop opts (i + 1) (passwords @ [password]) s1 = Some (r2, s2)"
        and sub2: "sset s2 \<subseteq> sset s1"
        and flt: "\<forall>f. r2 = Inl f \<longrightarrow> int (i + 1) < Quantity opts \<and>
                   (\<exists>s0. sset s0 \<subseteq> sset s1 \<and> generatePassword opts s0 = Some (Inl f, s2))"
        and ok: "\<forall>pws. r2 = Inr pws \<longrightarrow>
                   length pws = length (passwords @ [password]) + (nat (Quantity opts) - (i + 1)) \<and>
                   take (length (passwords @ [password])) pws = passwords @ [password] \<and>
                   (\<forall>pw \<in> set (drop (length (passwords @ [password])) pws).
                      \<exists>s0 s1. generatePassword opts s0 = Some (Inr pw, s1))"
        by blast
      have eq: "GeneratePasswords_loop opts i passwords s = Some (r2, s2)"
        using True g Inr l by (simp add: GeneratePasswords_loop_step_ok)
      have a: "sset s2 \<subseteq> sset s" using sub1 sub2 by blast
      have b: "\<forall>f. r2 = Inl f \<longrightarrow> int i < Quantity opts \<and>
                 (\<exists>s0. sset s0 \<subseteq> sset s \<and> generatePassword opts s0 = Some (Inl f, s2))"
      proof (intro allI impI)
        fix f assume "r2 = Inl f"
        with flt obtain s0 where "sset s0 \<subseteq> sset s1"
          and "generatePassword opts s0 = Some (Inl f, s2)" by blast
        with sub1 have "sset s0 \<subseteq> sset s \<and> generatePassword opts s0 = Some (Inl f, s2)"
          by blast
        with True show "int i < Quantity opts \<and>
                 (\<exists>s0. sset s0 \<subseteq> sset s \<and> generatePassword opts s0 = Some (Inl f, s2))"
          by blast
      qed
      have c: "\<forall>pws. r2 = Inr pws \<longrightarrow>
                 length pws = length passwords + (nat (Quantity opts) - i) \<and>
                 take (length passwords) pws = passwords \<and>
                 (\<forall>pw \<in> set (drop (length passwords) pws).
                    \<exists>s0 s1. generatePassword opts s0 = Some (Inr pw, s1))"
      proof (intro allI impI)
        fix pws assume r2: "r2 = Inr pws"
        with ok have len: "length pws = Suc (length passwords) + (nat (Quantity opts) - (i + 1))"
          and tk: "take (Suc (length passwords)) pws = passwords @ [password]"
          and rest: "\<forall>pw \<in> set (drop (Suc (length passwords)) pws).
                      \<exists>s0 s1. generatePassword opts s0 = Some (Inr pw, s1)"
          by simp_all
        have l1: "length pws = length passwords + (nat (Quantity opts) - i)"
          using len True by linarith
        have l2: "take (length passwords) pws = passwords"
          using tk by (metis append_eq_conv_conj length_take min.absorb2 nat_le_linear take_all take_take le_SucI)
        have nth: "pws ! length passwords = password"
          using tk len by (metis lessI nth_append_length nth_take)
        have "drop (length passwords) pws = password # drop (Suc (length passwords)) pws"
          using nth len by (metis Cons_nth_drop_Suc add_Suc less_add_Suc1)
        with rest g Inr have l3: "\<forall>pw \<in> set (drop (length passwords) pws).
                    \<exists>s0 s1. generatePassword opts s0 = Some (Inr pw, s1)"
          by auto
        from l1 l2 l3 show "length pws = length passwords + (nat (Quantity opts) - i) \<and>
                 take (length passwords) pws = passwords \<and>
                 (\<forall>pw \<in> set (drop (length passwords) pws).
                    \<exists>s0 s1. generatePassword opts s0 = Some (Inr pw, s1))"
          by simp
      qed
      from eq a b c show ?thesis by blast
    qed
  qed
qed

section \<open>Requests without structural options\<close>



lemma exampleOptions_builds: "buildCharacterSet exampleOptions = lowerChars"
  by (simp add: buildCharacterSet_def exampleOptions_def)

text \<open>
  A length above the allocation limit ends in the panic of \<^verbatim>\<open>make\<close>, before any
  draw.
\<close>

lemma generatePassword_length_above_limit:
  "generatePassword (exampleOptions\<lparr>Length := 2 ^ 62\<rparr>) s =
     Some (Inl (Panic MakeSliceLenOutOfRange), s)"
  by (simp add: generatePassword_def Let_def make_panics_def maxAlloc_def)
     (simp add: exampleOptions_def buildCharacterSet_def lowerChars_nonempty)



section \<open>Batch generation\<close>

lemma replicate_three: "replicate 3 x = [x, x, x]"
  by (simp add: numeral_3_eq_3)





section \<open>Refused requests\<close>

lemma kind_of_InvalidConfiguration:
  "kind_of e = InvalidConfiguration \<longleftrightarrow> e = ErrNoCharacterType"
  by (cases e) simp_all

lemma generatePassword_no_class:
  assumes "buildCharacterSet opts = []"
  shows "generatePassword opts s = Some (Inl (Error ErrNoCharacterType), s)"
  using assms by (simp add: generatePassword_def)

lemma generatePassword_class_enabled:
  assumes "buildCharacterSet opts \<noteq> []"
  shows "generatePassword opts s \<noteq> Some (Inl (Error ErrNoCharacterType), s')"
proof
  assume "generatePassword opts s = Some (Inl (Error ErrNoCharacterType), s')"
  with generatePassword_outcome [of opts s] assms show False by auto
qed

text \<open>
  Claim C4 says that a request is refused with an \<open>InvalidConfiguration\<close> error exactly
  when no class is enabled, or a first letter is asked for with no letter class, or
  \<open>Length \<le> 0\<close>, or \<open>Quantity \<le> 0\<close>. The code tests the character set only. A length
  of zero gives the empty password, a negative length panics in \<^verbatim>\<open>make\<close>, and a
  quantity of zero gives the empty list, even with no class enabled.
\<close>

theorem invalid_configuration_counterexample:
  "Length (exampleOptions\<lparr>Length := 0\<rparr>) \<le> 0 \<and>
   generatePassword (exampleOptions\<lparr>Length := 0\<rparr>) (sconst Fail) = Some (Inr [], sconst Fail) \<and>
   Length (exampleOptions\<lparr>Length := - 1\<rparr>) \<le> 0 \<and>
   generatePassword (exampleOptions\<lparr>Length := - 1\<rparr>) (sconst Fail) =
     Some (Inl (Panic MakeSliceLenOutOfRange), sconst Fail) \<and>
   Quantity (exampleOptions\<lparr>Quantity := 0, IncludeLower := False\<rparr>) \<le> 0 \<and>
   buildCharacterSet (exampleOptions\<lparr>Quantity := 0, IncludeLower := False\<rparr>) = [] \<and>
   GeneratePasswords (exampleOptions\<lparr>Quantity := 0, IncludeLower := False\<rparr>) (sconst Fail) =
     Some (Inr [], sconst Fail)"
  by (simp add: exampleOptions_def generatePassword_def buildCharacterSet_def Let_def
        lowerChars_nonempty generatePassword_loop.simps GeneratePasswords_def
        GeneratePasswords_loop.simps make_panics_def maxAlloc_def)

text \<open>
  Claim C4, amended. When no character class is enabled, \<^verbatim>\<open>generatePassword\<close>
  returns the error of kind \<open>InvalidConfiguration\<close> and the entropy stream is untouched;
  \<^verbatim>\<open>GeneratePasswords\<close> returns the same error, again with the stream untouched, when
  the quantity is positive, and the empty list otherwise. When a class is enabled (and
  a letter class too if the first character must be a letter) neither function returns
  an error of that kind, whatever the length and the quantity are.
\<close>

theorem invalid_configuration_amended:
  "(buildCharacterSet opts = [] \<longrightarrow>
      kind_of ErrNoCharacterType = InvalidConfiguration \<and>
      generatePassword opts s = Some (Inl (Error ErrNoCharacterType), s) \<and>
      GeneratePasswords opts s =
        (if 0 < Quantity opts then Some (Inl (Error ErrNoCharacterType), s)
         else Some (Inr [], s))) \<and>
   (buildCharacterSet opts \<noteq> [] \<and>
    (BeginWithLetter opts \<longrightarrow> IncludeUpper opts \<or> IncludeLower opts) \<longrightarrow>
      (\<forall>e s'. kind_of e = InvalidConfiguration \<longrightarrow>
         generatePassword opts s \<noteq> Some (Inl (Error e), s') \<and>
         GeneratePasswords opts s \<noteq> Some (Inl (Error e), s')))"
proof (intro conjI impI allI)
  show "kind_of ErrNoCharacterType = InvalidConfiguration" by simp
next
  assume "buildCharacterSet opts = []"
  then show "generatePassword opts s = Some (Inl (Error ErrNoCharacterType), s)"
    by (rule generatePassword_no_class)
next
  assume none: "buildCharacterSet opts = []"
  show "GeneratePasswords opts s =
        (if 0 < Quantity opts then Some (Inl (Error ErrNoCharacterType), s)
         else Some (Inr [], s))"
  proof (cases "0 < Quantity opts")
    case True
    then have "int 0 < Quantity opts" by simp
    from GeneratePasswords_loop_step_fault [OF this generatePassword_no_class [OF none]] True
    show ?thesis by (simp add: GeneratePasswords_def)
  next
    case False
    then show ?thesis by (simp add: GeneratePasswords_def GeneratePasswords_loop_exit)
  qed
next
  fix e s'
  assume "buildCharacterSet opts \<noteq> [] \<and>
    (BeginWithLetter opts \<longrightarrow> IncludeUpper opts \<or> IncludeLower opts)"
    and "kind_of e = InvalidConfiguration"
  then show "generatePassword opts s \<noteq> Some (Inl (Error e), s')"
    by (simp add: kind_of_InvalidConfiguration generatePassword_class_enabled)
next
  fix e s'
  assume pool: "buildCharacterSet opts \<noteq> [] \<and>
    (BeginWithLetter opts \<longrightarrow> IncludeUpper opts \<or> IncludeLower opts)"
    and "kind_of e = InvalidConfiguration"
  then have e: "e = ErrNoCharacterType" by (simp add: kind_of_InvalidConfiguration)
  show "GeneratePasswords opts s \<noteq> Some (Inl (Error e), s')"
  proof
    assume g: "GeneratePasswords opts s = Some (Inl (Error e), s')"
    from GeneratePasswords_loop_outcome [of opts 0 "[]" s] g
    obtain s0 where "generatePassword opts s0 = Some (Inl (Error e), s')"
      unfolding GeneratePasswords_def by auto
    with e pool generatePassword_class_enabled [of opts s0 s'] show False by simp
  qed
qed

theorem invalid_configuration_amended_witness:
  "generatePassword (exampleOptions\<lparr>IncludeLower := False\<rparr>) (sconst (Val 0)) =
     Some (Inl (Error ErrNoCharacterType), sconst (Val 0)) \<and>
   GeneratePasswords (exampleOptions\<lparr>IncludeLower := False\<rparr>) (sconst (Val 0)) =
     Some (Inl (Error ErrNoCharacterType), sconst (Val 0)) \<and>
   generatePassword exampleOptions (sconst Fail) \<noteq>
     Some (Inl (Error ErrNoCharacterType), sconst Fail) \<and>
   GeneratePasswords exampleOptions (sconst Fail) \<noteq>
     Some (Inl (Error ErrNoCharacterType), sconst Fail)"
proof -
  have none: "buildCharacterSet (exampleOptions\<lparr>IncludeLower := False\<rparr>) = []"
    by (simp add: buildCharacterSet_def exampleOptions_def)
  have q: "0 < Quantity (exampleOptions\<lparr>IncludeLower := False\<rparr>)"
    by (simp add: exampleOptions_def)
  have some: "buildCharacterSet exampleOptions \<noteq> [] \<and>
    (BeginWithLetter exampleOptions \<longrightarrow> IncludeUpper exampleOptions \<or> IncludeLower exampleOptions)"
    by (simp add: exampleOptions_builds lowerChars_nonempty) (simp add: exampleOptions_def)
  have k: "kind_of ErrNoCharacterType = InvalidConfiguration" by simp
  from invalid_configuration_amended [of "exampleOptions\<lparr>IncludeLower := False\<rparr>" "sconst (Val 0)"]
    none q
  have a: "generatePassword (exampleOptions\<lparr>IncludeLower := False\<rparr>) (sconst (Val 0)) =
     Some (Inl (Error ErrNoCharacterType), sconst (Val 0)) \<and>
   GeneratePasswords (exampleOptions\<lparr>IncludeLower := False\<rparr>) (sconst (Val 0)) =
     Some (Inl (Error ErrNoCharacterType), sconst (Val 0))"
    by simp
  from invalid_configuration_amended [of exampleOptions "sconst Fail"] some k
  have b: "generatePassword exampleOptions (sconst Fail) \<noteq>
     Some (Inl (Error ErrNoCharacterType), sconst Fail) \<and>
   GeneratePasswords exampleOptions (sconst Fail) \<noteq>
     Some (Inl (Error ErrNoCharacterType), sconst Fail)"
    by blast
  from a b show ?thesis by simp
qed

section \<open>The structural options and the sequential repair\<close>

lemmas run_simps =
  exampleOptions_def generatePassword_def buildCharacterSet_def Let_def make_panics_def
  maxAlloc_def
  generatePassword_loop.simps secureRandomChar_def rand_Int_def replicate_three
  lowerChars_codes removeSequentialCharacters_def removeSequentialCharacters_loop.simps
  generateNonSequentialChars_def generateNonSequentialChars_loop.simps getRandomRune_def
  charSets_split upperChars_codes numberChars_codes isSequential_def space_code
  removeSimilarCharacters_def ReplaceAll_by_empty_def similarCharacters_codes
  removeDuplicateCharacters_def

lemma replicate_five: "replicate 5 x = [x, x, x, x, x]"
  by (simp add: eval_nat_numeral)

text \<open>
  Claim C1. With \<^verbatim>\<open>NoSequential\<close> set, no three consecutive characters of a returned
  password should form an ascending or descending run, and a replacement that forms a
  run with a neighbour should be rejected. The code does neither. The three replacement
  characters are never compared with each other, and the comparisons with the
  neighbours have the blank as third argument and reject nothing. In the first request
  the password \<open>abc\<close> is replaced by the draws \<open>a\<close>, \<open>b\<close>, \<open>c\<close>. In the second the run
  \<open>abc\<close> of \<open>stabc\<close> is replaced by \<open>uxx\<close>, which makes the run \<open>stu\<close> with the two
  characters before it.
\<close>

theorem sequential_run_survives:
  "generatePassword (exampleOptions\<lparr>NoSequential := True\<rparr>)
     (Val 0 ## Val 1 ## Val 2 ## Val 26 ## Val 27 ## Val 28 ## sconst Fail) =
     Some (Inr [97, 98, 99], sconst Fail) \<and>
   isSequential 97 98 99 \<and>
   generatePassword (exampleOptions\<lparr>NoSequential := True, Length := 5\<rparr>)
     (Val 18 ## Val 19 ## Val 0 ## Val 1 ## Val 2 ## Val 46 ## Val 49 ## Val 49 ## sconst Fail) =
     Some (Inr [115, 116, 117, 120, 120], sconst Fail) \<and>
   isSequential 115 116 117"
  by (simp add: run_simps replicate_five)

text \<open>
  Claim C5. A failed draw should surface as an error of kind \<open>EntropySourceFailure\<close>
  in every stage. In the assembly stage it does (second equation). In the repair stage
  \<^verbatim>\<open>getRandomRune\<close> drops the error and dereferences the nil result: the call ends in
  a panic, not in an error return (first equation).
\<close>

theorem failed_draw_in_repair_panics:
  "generatePassword (exampleOptions\<lparr>NoSequential := True\<rparr>)
     (Val 0 ## Val 1 ## Val 2 ## sconst Fail) =
     Some (Inl (Panic NilPointerDereference), sconst Fail) \<and>
   generatePassword exampleOptions (Val 0 ## Val 1 ## sconst Fail) =
     Some (Inl (Error ErrSecureRandom), sconst Fail) \<and>
   kind_of ErrSecureRandom = EntropySourceFailure"
  by (simp add: run_simps)

text \<open>
  Claim C2 says that with \<^verbatim>\<open>NoSimilar\<close> set no returned character is in the similar
  set, also after the sequential repair. The repair draws from all letters and digits:
  here the run \<open>abc\<close> is replaced by \<open>l\<close>, \<open>1\<close>, \<open>O\<close>.
\<close>

theorem similar_after_repair_counterexample:
  "NoSimilar (exampleOptions\<lparr>NoSimilar := True, NoSequential := True\<rparr>) \<and>
   generatePassword (exampleOptions\<lparr>NoSimilar := True, NoSequential := True\<rparr>)
     (Val 0 ## Val 1 ## Val 2 ## Val 37 ## Val 53 ## Val 14 ## sconst Fail) =
     Some (Inr [108, 49, 79], sconst Fail) \<and>
   108 \<in> set similarCharacters \<and> 49 \<in> set similarCharacters \<and> 79 \<in> set similarCharacters"
  by (simp add: run_simps)

text \<open>
  Claim C3 says that with \<^verbatim>\<open>NoDuplicates\<close> set no character appears twice in a
  returned password, also after the sequential repair. The repair does not look at the
  characters already there or at its own earlier draws: here the run \<open>abc\<close> is replaced
  by \<open>kkk\<close>.
\<close>

theorem duplicate_after_repair_counterexample:
  "NoDuplicates (exampleOptions\<lparr>NoDuplicates := True, NoSequential := True\<rparr>) \<and>
   generatePassword (exampleOptions\<lparr>NoDuplicates := True, NoSequential := True\<rparr>)
     (Val 0 ## Val 1 ## Val 2 ## Val 36 ## Val 36 ## Val 36 ## sconst Fail) =
     Some (Inr [107, 107, 107], sconst Fail) \<and>
   \<not> distinct [107, 107, 107 :: rune]"
  by (simp add: run_simps)

lemma foldl_ReplaceAll_by_empty:
  "foldl ReplaceAll_by_empty password cs = filter (\<lambda>c. c \<notin> set cs) password"
proof (induction cs arbitrary: password)
  case Nil
  show ?case by simp
next
  case (Cons a cs)
  show ?case
    by (simp add: Cons.IH) (auto simp add: ReplaceAll_by_empty_def intro: filter_cong)
qed

lemma removeSimilarCharacters_filter:
  "removeSimilarCharacters password = filter (\<lambda>c. c \<notin> set similarCharacters) password"
  by (simp add: removeSimilarCharacters_def foldl_ReplaceAll_by_empty)

lemma removeDuplicateCharacters_loop_inv:
  assumes "distinct result" and "\<forall>c. seen c \<longleftrightarrow> c \<in> set result"
  shows "distinct (removeDuplicateCharacters_loop password seen result) \<and>
         set (removeDuplicateCharacters_loop password seen result) = set result \<union> set password"
  using assms
proof (induction password seen result rule: removeDuplicateCharacters_loop.induct)
  case (1 seen result)
  then show ?case by simp
next
  case (2 char rest seen result)
  show ?case
  proof (cases "seen char")
    case True
    with "2.IH"(2) "2.prems" show ?thesis by auto
  next
    case False
    with "2.prems" have d: "distinct (result @ [char])"
      and sn: "\<forall>c. (seen(char := True)) c \<longleftrightarrow> c \<in> set (result @ [char])"
      by auto
    note ih = "2.IH"(1) [OF False d sn]
    have step: "removeDuplicateCharacters_loop (char # rest) seen result =
                removeDuplicateCharacters_loop rest (seen(char := True)) (result @ [char])"
      using False by simp
    from ih show ?thesis
      unfolding step by (auto simp del: fun_upd_apply)
  qed
qed

lemma removeDuplicateCharacters_distinct:
  "distinct (removeDuplicateCharacters password) \<and>
   set (removeDuplicateCharacters password) = set password"
  using removeDuplicateCharacters_loop_inv [of "[]" "\<lambda>_. False" password]
  by (simp add: removeDuplicateCharacters_def)


lemma generatePassword_Inr_stages:
  assumes "generatePassword opts s = Some (Inr pw, s')"
  shows "\<exists>password s1 mid.
           mid = (if NoDuplicates opts
                  then removeDuplicateCharacters
                         (if NoSimilar opts then removeSimilarCharacters password else password)
                  else (if NoSimilar opts then removeSimilarCharacters password else password)) \<and>
           (NoSequential opts \<longrightarrow> removeSequentialCharacters mid s1 = Some (Inr pw, s')) \<and>
           (\<not> NoSequential opts \<longrightarrow> pw = mid)"
proof -
  let ?loop = "generatePassword_loop opts (buildCharacterSet opts) 0
                 (replicate (nat (Length opts)) 0) s"
  from assms have pool: "buildCharacterSet opts \<noteq> []" and len: "\<not> make_panics (Length opts)"
    by (auto simp add: generatePassword_def Let_def split: if_splits)
  obtain r s1 where l: "?loop = (r, s1)" by (cases ?loop)
  show ?thesis
  proof (cases r)
    case (Inl f)
    with assms pool len l show ?thesis by (simp add: generatePassword_def Let_def)
  next
    case (Inr password)
    define mid where
      "mid = (if NoDuplicates opts
              then removeDuplicateCharacters
                     (if NoSimilar opts then removeSimilarCharacters password else password)
              else (if NoSimilar opts then removeSimilarCharacters password else password))"
    have eq: "generatePassword opts s =
                (if NoSequential opts then removeSequentialCharacters mid s1
                 else Some (Inr mid, s1))"
      unfolding mid_def using pool len l Inr by (simp add: generatePassword_def Let_def)
    have seq: "NoSequential opts \<longrightarrow> removeSequentialCharacters mid s1 = Some (Inr pw, s')"
      using eq assms by simp
    have plain: "\<not> NoSequential opts \<longrightarrow> pw = mid"
      using eq assms by auto
    from mid_def seq plain show ?thesis by blast
  qed
qed

lemma generatePassword_NoSimilar_mid:
  assumes "NoSimilar opts" and "generatePassword opts s = Some (Inr pw, s')"
  shows "\<exists>mid s1. (\<forall>c \<in> set mid. c \<notin> set similarCharacters) \<and>
           (NoSequential opts \<longrightarrow> removeSequentialCharacters mid s1 = Some (Inr pw, s')) \<and>
           (\<not> NoSequential opts \<longrightarrow> pw = mid)"
proof -
  from generatePassword_Inr_stages [OF assms(2)]
  obtain password s1 mid where
    mid: "mid = (if NoDuplicates opts
                 then removeDuplicateCharacters
                        (if NoSimilar opts then removeSimilarCharacters password else password)
                 else (if NoSimilar opts then removeSimilarCharacters password else password))"
    and st: "NoSequential opts \<longrightarrow> removeSequentialCharacters mid s1 = Some (Inr pw, s')"
            "\<not> NoSequential opts \<longrightarrow> pw = mid"
    by blast
  from mid assms(1) have "\<forall>c \<in> set mid. c \<notin> set similarCharacters"
    by (simp add: removeDuplicateCharacters_distinct removeSimilarCharacters_filter)
  with st show ?thesis by blast
qed

lemma generatePassword_NoDuplicates_mid:
  assumes "NoDuplicates opts" and "generatePassword opts s = Some (Inr pw, s')"
  shows "\<exists>mid s1. distinct mid \<and>
           (NoSequential opts \<longrightarrow> removeSequentialCharacters mid s1 = Some (Inr pw, s')) \<and>
           (\<not> NoSequential opts \<longrightarrow> pw = mid)"
proof -
  from generatePassword_Inr_stages [OF assms(2)]
  obtain password s1 mid where
    mid: "mid = (if NoDuplicates opts
                 then removeDuplicateCharacters
                        (if NoSimilar opts then removeSimilarCharacters password else password)
                 else (if NoSimilar opts then removeSimilarCharacters password else password))"
    and st: "NoSequential opts \<longrightarrow> removeSequentialCharacters mid s1 = Some (Inr pw, s')"
            "\<not> NoSequential opts \<longrightarrow> pw = mid"
    by blast
  from mid assms(1) have "distinct mid"
    by (simp add: removeDuplicateCharacters_distinct)
  with st show ?thesis by blast
qed

lemma GeneratePasswords_each:
  assumes "GeneratePasswords opts s = Some (Inr pws, s')" and "p \<in> set pws"
  shows "\<exists>s0 s1. generatePassword opts s0 = Some (Inr p, s1)"
  using GeneratePasswords_loop_outcome [of opts 0 "[]" s] assms
  by (simp add: GeneratePasswords_def)

text \<open>
  Claim C2, amended. With \<^verbatim>\<open>NoSimilar\<close> set and \<^verbatim>\<open>NoSequential\<close> not set, no
  character of a password returned by \<^verbatim>\<open>generatePassword\<close>, or of any password of a
  list returned by \<^verbatim>\<open>GeneratePasswords\<close>, is in the similar set. With \<^verbatim>\<open>NoSequential\<close>
  set as well, the returned password is the sequential repair of a string that has no
  similar character.
\<close>

theorem no_similar_without_repair:
  assumes "NoSimilar opts"
  shows "(\<not> NoSequential opts \<and> generatePassword opts s = Some (Inr pw, s1) \<longrightarrow>
            (\<forall>c \<in> set pw. c \<notin> set similarCharacters)) \<and>
         (\<not> NoSequential opts \<and> GeneratePasswords opts s = Some (Inr pws, s2) \<longrightarrow>
            (\<forall>p \<in> set pws. \<forall>c \<in> set p. c \<notin> set similarCharacters)) \<and>
         (NoSequential opts \<and> generatePassword opts s = Some (Inr pw, s1) \<longrightarrow>
            (\<exists>mid s0. (\<forall>c \<in> set mid. c \<notin> set similarCharacters) \<and>
                       removeSequentialCharacters mid s0 = Some (Inr pw, s1)))"
proof (intro conjI impI)
  assume "\<not> NoSequential opts \<and> generatePassword opts s = Some (Inr pw, s1)"
  with generatePassword_NoSimilar_mid [OF assms, of s pw s1]
  show "\<forall>c \<in> set pw. c \<notin> set similarCharacters" by auto
next
  assume a: "\<not> NoSequential opts \<and> GeneratePasswords opts s = Some (Inr pws, s2)"
  show "\<forall>p \<in> set pws. \<forall>c \<in> set p. c \<notin> set similarCharacters"
  proof
    fix p assume "p \<in> set pws"
    with a GeneratePasswords_each [of opts s pws s2 p]
    obtain s0 s3 where "generatePassword opts s0 = Some (Inr p, s3)" by blast
    with a generatePassword_NoSimilar_mid [OF assms, of s0 p s3]
    show "\<forall>c \<in> set p. c \<notin> set similarCharacters" by auto
  qed
next
  assume "NoSequential opts \<and> generatePassword opts s = Some (Inr pw, s1)"
  with generatePassword_NoSimilar_mid [OF assms, of s pw s1]
  show "\<exists>mid s0. (\<forall>c \<in> set mid. c \<notin> set similarCharacters) \<and>
                       removeSequentialCharacters mid s0 = Some (Inr pw, s1)" by auto
qed

theorem no_similar_without_repair_witness:
  "generatePassword (exampleOptions\<lparr>NoSimilar := True\<rparr>)
     (Val 0 ## Val 8 ## Val 11 ## sconst Fail) = Some (Inr [97], sconst Fail) \<and>
   97 \<notin> set similarCharacters"
proof -
  have flag: "NoSimilar (exampleOptions\<lparr>NoSimilar := True\<rparr>)" by simp
  have off: "\<not> NoSequential (exampleOptions\<lparr>NoSimilar := True\<rparr>)"
    by (simp add: exampleOptions_def)
  have ev: "generatePassword (exampleOptions\<lparr>NoSimilar := True\<rparr>)
     (Val 0 ## Val 8 ## Val 11 ## sconst Fail) = Some (Inr [97], sconst Fail)"
    by (simp add: run_simps)
  from no_similar_without_repair [OF flag, of "Val 0 ## Val 8 ## Val 11 ## sconst Fail"
         "[97]" "sconst Fail"] off ev
  have "\<forall>c \<in> set [97]. c \<notin> set similarCharacters" by blast
  with ev show ?thesis by simp
qed

text \<open>
  Claim C3, amended. With \<^verbatim>\<open>NoDuplicates\<close> set and \<^verbatim>\<open>NoSequential\<close> not set, no
  character appears twice in a password returned by \<^verbatim>\<open>generatePassword\<close>, or in any
  password of a list returned by \<^verbatim>\<open>GeneratePasswords\<close>. With \<^verbatim>\<open>NoSequential\<close> set as
  well, the returned password is the sequential repair of a string of distinct
  characters.
\<close>

theorem no_duplicates_without_repair:
  assumes "NoDuplicates opts"
  shows "(\<not> NoSequential opts \<and> generatePassword opts s = Some (Inr pw, s1) \<longrightarrow> distinct pw) \<and>
         (\<not> NoSequential opts \<and> GeneratePasswords opts s = Some (Inr pws, s2) \<longrightarrow>
            (\<forall>p \<in> set pws. distinct p)) \<and>
         (NoSequential opts \<and> generatePassword opts s = Some (Inr pw, s1) \<longrightarrow>
            (\<exists>mid s0. distinct mid \<and> removeSequentialCharacters mid s0 = Some (Inr pw, s1)))"
proof (intro conjI impI)
  assume "\<not> NoSequential opts \<and> generatePassword opts s = Some (Inr pw, s1)"
  with generatePassword_NoDuplicates_mid [OF assms, of s pw s1]
  show "distinct pw" by auto
next
  assume a: "\<not> NoSequential opts \<and> GeneratePasswords opts s = Some (Inr pws, s2)"
  show "\<forall>p \<in> set pws. distinct p"
  proof
    fix p assume "p \<in> set pws"
    with a GeneratePasswords_each [of opts s pws s2 p]
    obtain s0 s3 where "generatePassword opts s0 = Some (Inr p, s3)" by blast
    with a generatePassword_NoDuplicates_mid [OF assms, of s0 p s3]
    show "distinct p" by auto
  qed
next
  assume "NoSequential opts \<and> generatePassword opts s = Some (Inr pw, s1)"
  with generatePassword_NoDuplicates_mid [OF assms, of s pw s1]
  show "\<exists>mid s0. distinct mid \<and> removeSequentialCharacters mid s0 = Some (Inr pw, s1)"
    by auto
qed

theorem no_duplicates_without_repair_witness:
  "generatePassword (exampleOptions\<lparr>NoDuplicates := True\<rparr>)
     (Val 0 ## Val 0 ## Val 1 ## sconst Fail) = Some (Inr [97, 98], sconst Fail) \<and>
   distinct [97, 98 :: rune]"
proof -
  have flag: "NoDuplicates (exampleOptions\<lparr>NoDuplicates := True\<rparr>)" by simp
  have off: "\<not> NoSequential (exampleOptions\<lparr>NoDuplicates := True\<rparr>)"
    by (simp add: exampleOptions_def)
  have ev: "generatePassword (exampleOptions\<lparr>NoDuplicates := True\<rparr>)
     (Val 0 ## Val 0 ## Val 1 ## sconst Fail) = Some (Inr [97, 98], sconst Fail)"
    by (simp add: run_simps)
  from no_duplicates_without_repair [OF flag, of "Val 0 ## Val 0 ## Val 1 ## sconst Fail"
         "[97, 98]" "sconst Fail"] off ev
  have "distinct [97, 98 :: rune]" by blast
  with ev show ?thesis by simp
qed

end
